theory Spec2Isabelle
  imports
    Main
    "HOL-Library.AList"
    "HOL-Library.DAList"
    "HOL-Library.Char_ord"
    "HOL-Library.List_Lexorder"
begin

section \<open>The coordination core of mqttui\<close>

text \<open>
  The development embeds the state-carrying parts of \<^verbatim>\<open>ui.go\<close>, \<^verbatim>\<open>main.go\<close> and
  \<^verbatim>\<open>mqtt.go\<close>. Styling and the text that the render functions produce are left out; what
  the render functions do to the state (the scroll recomputation) is kept.

  Go's \<^verbatim>\<open>int\<close> is modelled by \<^typ>\<open>int\<close>: every integer of the UI state is compared with
  a slice length or a terminal dimension before it moves by one, so no operation wraps.
  Go's \<^verbatim>\<open>string\<close> is a byte sequence compared bytewise, which is \<^typ>\<open>string\<close> with the
  lexicographic order on characters.
\<close>

subsection \<open>Go maps with boolean values\<close>

text \<open>
  A \<^verbatim>\<open>map[string]bool\<close> is an association list with distinct keys. A lookup of a missing
  key gives Go's zero value \<^verbatim>\<open>false\<close>. Go leaves the order of \<^verbatim>\<open>range\<close> over a map open;
  the model ranges in the order of first insertion, and the theorems below speak about the
  set of the results (together with the absence of repetitions) and so about every order.
\<close>

type_synonym gomap = "(string, bool) alist"

definition go_get :: "gomap \<Rightarrow> string \<Rightarrow> bool" where
  "go_get m k = (case DAList.lookup m k of None \<Rightarrow> False | Some b \<Rightarrow> b)"

definition go_set :: "gomap \<Rightarrow> string \<Rightarrow> bool \<Rightarrow> gomap" where
  "go_set m k b = DAList.update k b m"

definition go_range :: "gomap \<Rightarrow> (string \<times> bool) list" where
  "go_range m = DAList.impl_of m"

definition go_keys :: "gomap \<Rightarrow> string list" where
  "go_keys m = map fst (go_range m)"

subsection \<open>The UI state (ui.go)\<close>

datatype Pane = TopicsPane | MessagesPane

record Message =
  Topic :: string
  Payload :: string
  Timestamp :: nat

record UI =
  topics :: "string list"
  selectedTopic :: int
  topicScroll :: int
  subscribedTopics :: gomap
  messages :: "Message list"
  messageScroll :: int
  width :: int
  height :: int
  activePane :: Pane
  error :: string

definition NewUI :: UI where
  "NewUI = \<lparr> topics = [], selectedTopic = 0, topicScroll = 0,
             subscribedTopics = DAList.empty, messages = [], messageScroll = 0,
             width = 0, height = 0, activePane = TopicsPane, error = [] \<rparr>"

text \<open>A run-time panic of the Go program: an index outside a slice.\<close>

datatype panic = IndexOutOfRange

definition len :: "'a list \<Rightarrow> int" where
  "len xs = int (length xs)"

definition index :: "'a list \<Rightarrow> int \<Rightarrow> panic + 'a" where
  "index xs i = (if 0 \<le> i \<and> i < len xs then Inr (xs ! nat i) else Inl IndexOutOfRange)"

text \<open>\<^verbatim>\<open>handleKeyPress\<close>: the argument is the key's name, \<^verbatim>\<open>msg.String()\<close>.\<close>

definition handleKeyPress :: "UI \<Rightarrow> string \<Rightarrow> panic + UI" where
  "handleKeyPress ui key =
    (if key = ''tab'' then
       Inr (if activePane ui = TopicsPane then ui\<lparr>activePane := MessagesPane\<rparr>
            else ui\<lparr>activePane := TopicsPane\<rparr>)
     else if key = ''up'' \<or> key = ''k'' then
       Inr (if activePane ui = TopicsPane then
              (if selectedTopic ui > 0 then ui\<lparr>selectedTopic := selectedTopic ui - 1\<rparr> else ui)
            else
              (if messageScroll ui > 0 then ui\<lparr>messageScroll := messageScroll ui - 1\<rparr> else ui))
     else if key = ''down'' \<or> key = ''j'' then
       Inr (if activePane ui = TopicsPane then
              (if selectedTopic ui < len (topics ui) - 1
               then ui\<lparr>selectedTopic := selectedTopic ui + 1\<rparr> else ui)
            else
              (if messageScroll ui < len (messages ui) - 1
               then ui\<lparr>messageScroll := messageScroll ui + 1\<rparr> else ui))
     else if key = ''enter'' \<or> key = '' '' then
       (if activePane ui = TopicsPane \<and> len (topics ui) > 0 then
          (case index (topics ui) (selectedTopic ui) of
             Inl p \<Rightarrow> Inl p
           | Inr topic \<Rightarrow>
               Inr (ui\<lparr>subscribedTopics :=
                      go_set (subscribedTopics ui) topic (\<not> go_get (subscribedTopics ui) topic)\<rparr>))
        else Inr ui)
     else if key = ''r'' then
       Inr (ui\<lparr>messages := [], messageScroll := 0\<rparr>)
     else Inr ui)"

text \<open>\<^verbatim>\<open>SetTopics\<close>: \<^verbatim>\<open>sort.Strings\<close> sorts ascending in the bytewise order.\<close>

definition SetTopics :: "UI \<Rightarrow> string list \<Rightarrow> UI" where
  "SetTopics ui ts =
    (let sorted_ts = sort ts;
         ui1 = ui\<lparr>topics := sorted_ts\<rparr>;
         ui2 = (if selectedTopic ui1 \<ge> len sorted_ts
                then ui1\<lparr>selectedTopic := len sorted_ts - 1\<rparr> else ui1);
         ui3 = (if selectedTopic ui2 < 0 then ui2\<lparr>selectedTopic := 0\<rparr> else ui2)
     in ui3\<lparr>topicScroll := 0\<rparr>)"

text \<open>\<^verbatim>\<open>AddMessage\<close>.\<close>

definition AddMessage :: "UI \<Rightarrow> string \<Rightarrow> string \<Rightarrow> nat \<Rightarrow> UI" where
  "AddMessage ui topic payload timestamp =
    (let message = \<lparr>Topic = topic, Payload = payload, Timestamp = timestamp\<rparr>;
         ui1 = ui\<lparr>messages := messages ui @ [message]\<rparr>
     in if activePane ui1 = MessagesPane \<or> messageScroll ui1 \<ge> len (messages ui1) - 5 then
          (let ui2 = ui1\<lparr>messageScroll := len (messages ui1) - 1\<rparr>
           in if messageScroll ui2 < 0 then ui2\<lparr>messageScroll := 0\<rparr> else ui2)
        else ui1)"

definition SetError :: "UI \<Rightarrow> string \<Rightarrow> UI" where
  "SetError ui err = ui\<lparr>error := err\<rparr>"

text \<open>\<^verbatim>\<open>GetSubscribedTopics\<close>: the keys whose flag is true.\<close>

definition GetSubscribedTopics :: "UI \<Rightarrow> string list" where
  "GetSubscribedTopics ui = map fst (filter snd (go_range (subscribedTopics ui)))"

text \<open>\<^verbatim>\<open>updateTopicScroll\<close>.\<close>

definition updateTopicScroll :: "UI \<Rightarrow> int \<Rightarrow> UI" where
  "updateTopicScroll ui visibleLines =
    (if len (topics ui) = 0 then ui\<lparr>topicScroll := 0\<rparr>
     else
       let ui1 = (if selectedTopic ui < 0 then ui\<lparr>selectedTopic := 0\<rparr> else ui);
           ui2 = (if selectedTopic ui1 \<ge> len (topics ui1)
                  then ui1\<lparr>selectedTopic := len (topics ui1) - 1\<rparr> else ui1);
           ui3 = (if selectedTopic ui2 < topicScroll ui2
                  then ui2\<lparr>topicScroll := selectedTopic ui2\<rparr>
                  else if selectedTopic ui2 \<ge> topicScroll ui2 + visibleLines
                  then ui2\<lparr>topicScroll := selectedTopic ui2 - visibleLines + 1\<rparr>
                  else ui2);
           ui4 = (if topicScroll ui3 < 0 then ui3\<lparr>topicScroll := 0\<rparr> else ui3);
           maxScroll = (if len (topics ui4) - visibleLines < 0 then 0
                        else len (topics ui4) - visibleLines)
       in if topicScroll ui4 > maxScroll then ui4\<lparr>topicScroll := maxScroll\<rparr> else ui4)"

text \<open>
  The render path. \<^verbatim>\<open>renderTopicsPane\<close> and \<^verbatim>\<open>renderMessagesPane\<close> return text and, on
  the way, write the scroll cursors; the definitions below are these writes.
  \<^verbatim>\<open>availableLines\<close> is the visible capacity of a pane of the given height.
\<close>

definition availableLines :: "int \<Rightarrow> int" where
  "availableLines h = (if h - 3 < 1 then 1 else h - 3)"

definition renderTopicsPane :: "UI \<Rightarrow> int \<Rightarrow> UI" where
  "renderTopicsPane ui h =
    (if len (topics ui) = 0 then ui else updateTopicScroll ui (availableLines h))"

definition renderMessagesPane :: "UI \<Rightarrow> int \<Rightarrow> UI" where
  "renderMessagesPane ui h =
    (if len (messages ui) = 0 then ui
     else
       let maxScroll = (if len (messages ui) - availableLines h < 0 then 0
                        else len (messages ui) - availableLines h);
           ui1 = (if messageScroll ui > maxScroll then ui\<lparr>messageScroll := maxScroll\<rparr> else ui)
       in if messageScroll ui1 < 0 then ui1\<lparr>messageScroll := 0\<rparr> else ui1)"

text \<open>\<^verbatim>\<open>View\<close>: nothing is rendered before the first window size arrives.\<close>

definition View :: "UI \<Rightarrow> UI" where
  "View ui =
    (if width ui = 0 \<or> height ui = 0 then ui
     else
       let availableHeight = (if height ui - 4 < 10 then 10 else height ui - 4)
       in renderMessagesPane (renderTopicsPane ui availableHeight) availableHeight)"

text \<open>
  The visible window of the messages pane: the indices \<^verbatim>\<open>startIdx\<close> (inclusive) and
  \<^verbatim>\<open>endIdx\<close> (exclusive) that the loop of \<^verbatim>\<open>renderMessagesPane\<close> runs over; the window
  is empty when there is no message.
\<close>

definition messagesWindow :: "UI \<Rightarrow> int \<Rightarrow> int \<times> int" where
  "messagesWindow ui h =
    (if len (messages ui) = 0 then (0, 0)
     else
       let ui1 = renderMessagesPane ui h;
           startIdx = messageScroll ui1;
           endIdx = (if startIdx + availableLines h > len (messages ui1)
                     then len (messages ui1) else startIdx + availableLines h)
       in (startIdx, endIdx))"

text \<open>\<^verbatim>\<open>UI.Update\<close>: the command it returns is always \<^verbatim>\<open>nil\<close> and is left out.\<close>

datatype Msg =
    WindowSizeMsg int int
  | KeyMsg string
  | MQTTConnectedMsg
  | MQTTDisconnectedMsg
  | MQTTTopicsDiscoveredMsg "string list"
  | MQTTMessageMsg string string nat
  | MQTTErrorMsg string

definition UI_Update :: "UI \<Rightarrow> Msg \<Rightarrow> panic + UI" where
  "UI_Update ui msg =
    (case msg of
       WindowSizeMsg w h \<Rightarrow> Inr (ui\<lparr>width := w, height := h\<rparr>)
     | KeyMsg key \<Rightarrow> handleKeyPress ui key
     | _ \<Rightarrow> Inr ui)"

subsection \<open>The gateway's topic registry (mqtt.go)\<close>

text \<open>
  Of \<^verbatim>\<open>MQTTClient\<close> the core sees the map of discovered topics; the connection itself is
  the broker library's. \<^verbatim>\<open>discoveryHandler\<close> records the topic of a delivered message, and
  the loop at the end of \<^verbatim>\<open>DiscoverTopicsCmd\<close> collects the keys into the slice that
  \<^verbatim>\<open>MQTTTopicsDiscoveredMsg\<close> carries.
\<close>

record MQTTClient =
  discoveredTopics :: gomap

definition NewMQTTClient :: MQTTClient where
  "NewMQTTClient = \<lparr> discoveredTopics = DAList.empty \<rparr>"

definition discoveryHandler :: "MQTTClient \<Rightarrow> string \<Rightarrow> MQTTClient" where
  "discoveryHandler m topic = m\<lparr>discoveredTopics := go_set (discoveredTopics m) topic True\<rparr>"

definition DiscoverTopicsCmd_topics :: "MQTTClient \<Rightarrow> string list" where
  "DiscoverTopicsCmd_topics m = go_keys (discoveredTopics m)"

subsection \<open>The application (main.go)\<close>

text \<open>
  A \<^verbatim>\<open>tea.Cmd\<close> is a closure that the runtime executes later; the model names the closures
  that \<^verbatim>\<open>App.Update\<close> can return. \<^verbatim>\<open>Disconnect\<close> is called at once and is recorded as a
  gateway call.
\<close>

datatype Cmd =
    Quit
  | DiscoverTopicsCmd
  | SubscribeToTopicCmd string
  | UnsubscribeFromTopicCmd string

datatype GatewayCall = Disconnect

record App =
  mqtt :: "MQTTClient option"
  ui :: UI
  quitting :: bool

text \<open>
  \<^verbatim>\<open>handleSubscriptionChanges\<close>: both slices are turned into maps, then each map is ranged
  over and looked up in the other.
\<close>

definition slice_to_map :: "string list \<Rightarrow> gomap" where
  "slice_to_map xs = foldl (\<lambda>m topic. go_set m topic True) DAList.empty xs"

definition handleSubscriptionChanges :: "string list \<Rightarrow> string list \<Rightarrow> Cmd list" where
  "handleSubscriptionChanges oldSubscribed newSubscribed =
    (let oldMap = slice_to_map oldSubscribed;
         newMap = slice_to_map newSubscribed
     in map SubscribeToTopicCmd (filter (\<lambda>topic. \<not> go_get oldMap topic) (go_keys newMap))
        @ map UnsubscribeFromTopicCmd (filter (\<lambda>topic. \<not> go_get newMap topic) (go_keys oldMap)))"

text \<open>
  Running the closures of \<^verbatim>\<open>subscribeToTopicCmd\<close> and \<^verbatim>\<open>unsubscribeFromTopicCmd\<close>: the
  second argument is the gateway's answer, \<open>None\<close> for success and \<open>Some err\<close> for the error
  text. The result is the message posted to the event loop; \<open>None\<close> is Go's \<^verbatim>\<open>nil\<close>, which
  posts nothing.
\<close>

definition subscribeToTopicCmd :: "string \<Rightarrow> string option \<Rightarrow> Msg option" where
  "subscribeToTopicCmd topic answer =
    (case answer of
       Some err \<Rightarrow> Some (MQTTErrorMsg (''failed to subscribe to '' @ topic @ '': '' @ err))
     | None \<Rightarrow> None)"

definition unsubscribeFromTopicCmd :: "string \<Rightarrow> string option \<Rightarrow> Msg option" where
  "unsubscribeFromTopicCmd topic answer =
    (case answer of
       Some err \<Rightarrow> Some (MQTTErrorMsg (''failed to unsubscribe from '' @ topic @ '': '' @ err))
     | None \<Rightarrow> None)"

text \<open>
  \<^verbatim>\<open>App.Update\<close>. The first argument is what \<^verbatim>\<open>a.mqtt.IsConnected()\<close> answers during the
  call. The result is the new application state, the batch of commands and the gateway
  calls made.
\<close>

definition is_quit_key :: "Msg \<Rightarrow> bool" where
  "is_quit_key msg = (case msg of KeyMsg key \<Rightarrow> key = ''ctrl+c'' \<or> key = ''q'' | _ \<Rightarrow> False)"

definition App_Update :: "bool \<Rightarrow> App \<Rightarrow> Msg \<Rightarrow> panic + (App \<times> Cmd list \<times> GatewayCall list)" where
  "App_Update connected a msg =
    (case msg of
       WindowSizeMsg w h \<Rightarrow>
         (case UI_Update (ui a) msg of
            Inl p \<Rightarrow> Inl p
          | Inr u \<Rightarrow> Inr (a\<lparr>ui := u\<rparr>, [], []))
     | _ \<Rightarrow>
         if is_quit_key msg then
           Inr (a\<lparr>quitting := True\<rparr>, [Quit], if mqtt a \<noteq> None then [Disconnect] else [])
         else
           let cmds = (case msg of
                         MQTTConnectedMsg \<Rightarrow> if mqtt a \<noteq> None then [DiscoverTopicsCmd] else []
                       | _ \<Rightarrow> []);
               a1 = (case msg of
                       MQTTTopicsDiscoveredMsg ts \<Rightarrow> a\<lparr>ui := SetTopics (ui a) ts\<rparr>
                     | MQTTMessageMsg topic payload timestamp \<Rightarrow>
                         a\<lparr>ui := AddMessage (ui a) topic payload timestamp\<rparr>
                     | MQTTErrorMsg e \<Rightarrow> a\<lparr>ui := SetError (ui a) (''MQTT Error: '' @ e)\<rparr>
                     | _ \<Rightarrow> a);
               oldSubscribed = GetSubscribedTopics (ui a1)
           in case UI_Update (ui a1) msg of
                Inl p \<Rightarrow> Inl p
              | Inr u \<Rightarrow>
                  let a2 = a1\<lparr>ui := u\<rparr>
                  in Inr (a2,
                          cmds @ (if mqtt a2 \<noteq> None \<and> connected
                                  then handleSubscriptionChanges oldSubscribed
                                         (GetSubscribedTopics (ui a2))
                                  else []),
                          []))"

text \<open>The commands of one call of \<^verbatim>\<open>App.Update\<close>, and the state it leaves.\<close>

definition issued :: "bool \<Rightarrow> App \<Rightarrow> Msg \<Rightarrow> Cmd list" where
  "issued connected a msg =
    (case App_Update connected a msg of Inl p \<Rightarrow> [] | Inr r \<Rightarrow> fst (snd r))"

definition is_subscription_action :: "Cmd \<Rightarrow> bool" where
  "is_subscription_action c =
    (case c of SubscribeToTopicCmd t \<Rightarrow> True | UnsubscribeFromTopicCmd t \<Rightarrow> True | _ \<Rightarrow> False)"

definition state_after :: "bool \<Rightarrow> App \<Rightarrow> Msg \<Rightarrow> App" where
  "state_after connected a msg =
    (case App_Update connected a msg of Inl p \<Rightarrow> a | Inr r \<Rightarrow> fst r)"

definition is_window_size :: "Msg \<Rightarrow> bool" where
  "is_window_size msg = (case msg of WindowSizeMsg w h \<Rightarrow> True | _ \<Rightarrow> False)"

text \<open>
  The event loop of the runtime: each message goes through \<^verbatim>\<open>App.Update\<close>, then
  \<^verbatim>\<open>App.View\<close> renders the new state. A panic ends the run.
\<close>

definition NewApp :: App where
  "NewApp = \<lparr> mqtt = Some NewMQTTClient, ui = NewUI, quitting = False \<rparr>"

definition App_View :: "App \<Rightarrow> App" where
  "App_View a = (if quitting a then a else a\<lparr>ui := View (ui a)\<rparr>)"

definition event_loop_step :: "App \<Rightarrow> bool \<times> Msg \<Rightarrow> panic + App" where
  "event_loop_step a ev =
    (case App_Update (fst ev) a (snd ev) of Inl p \<Rightarrow> Inl p | Inr r \<Rightarrow> Inr (App_View (fst r)))"

fun event_loop :: "App \<Rightarrow> (bool \<times> Msg) list \<Rightarrow> panic + App" where
  "event_loop a [] = Inr a"
| "event_loop a (ev # evs) =
    (case event_loop_step a ev of Inl p \<Rightarrow> Inl p | Inr a1 \<Rightarrow> event_loop a1 evs)"

subsection \<open>Vocabulary of the properties\<close>

text \<open>The keys that toggle a subscription.\<close>

definition toggle_key :: "string \<Rightarrow> bool" where
  "toggle_key key = (key = ''enter'' \<or> key = '' '')"

text \<open>The ranges of the data model: selection index and message scroll cursor.\<close>

definition selectedTopic_ok :: "UI \<Rightarrow> bool" where
  "selectedTopic_ok u = (0 \<le> selectedTopic u \<and> selectedTopic u \<le> max 0 (len (topics u) - 1))"

definition messageScroll_ok :: "UI \<Rightarrow> bool" where
  "messageScroll_ok u = (0 \<le> messageScroll u \<and> messageScroll u \<le> max 0 (len (messages u) - 1))"

definition ui_inv :: "UI \<Rightarrow> bool" where
  "ui_inv u = (selectedTopic_ok u \<and> messageScroll_ok u)"

text \<open>The topic scroll cursor lies in \<open>[0, max(0, N - V)]\<close>.\<close>

definition topicScroll_clamped :: "int \<Rightarrow> UI \<Rightarrow> bool" where
  "topicScroll_clamped V u = (0 \<le> topicScroll u \<and> topicScroll u \<le> max 0 (len (topics u) - V))"

text \<open>The newest message lies inside the visible window of a messages pane of height \<open>h\<close>.\<close>

definition newest_visible :: "UI \<Rightarrow> int \<Rightarrow> bool" where
  "newest_visible u h =
    (fst (messagesWindow u h) \<le> len (messages u) - 1 \<and> len (messages u) - 1 < snd (messagesWindow u h))"

text \<open>
  Navigation of the topics pane: \<^verbatim>\<open>MoveUp\<close> and \<^verbatim>\<open>MoveDown\<close> are the keys \<^verbatim>\<open>up\<close> and
  \<^verbatim>\<open>down\<close>, and each operation is followed by the rendering of the topics pane at
  height \<open>h\<close>.
\<close>

datatype TopicOp = MoveUp | MoveDown | SetTopicsOp "string list"

definition apply_TopicOp :: "int \<Rightarrow> UI \<Rightarrow> TopicOp \<Rightarrow> panic + UI" where
  "apply_TopicOp h u op =
    (case (case op of
             MoveUp \<Rightarrow> handleKeyPress u ''up''
           | MoveDown \<Rightarrow> handleKeyPress u ''down''
           | SetTopicsOp ts \<Rightarrow> Inr (SetTopics u ts)) of
       Inl p \<Rightarrow> Inl p
     | Inr u1 \<Rightarrow> Inr (renderTopicsPane u1 h))"

fun run_TopicOps :: "int \<Rightarrow> UI \<Rightarrow> TopicOp list \<Rightarrow> panic + UI" where
  "run_TopicOps h u [] = Inr u"
| "run_TopicOps h u (op # ops) =
    (case apply_TopicOp h u op of Inl p \<Rightarrow> Inl p | Inr u1 \<Rightarrow> run_TopicOps h u1 ops)"

subsection \<open>Concrete states\<close>

definition example_ui :: UI where
  "example_ui = NewUI\<lparr>topics := [''a/1'', ''b/2''], selectedTopic := 1\<rparr>"

definition msg_n :: "nat \<Rightarrow> Message" where
  "msg_n n = \<lparr>Topic = ''t'', Payload = ''p'', Timestamp = n\<rparr>"

definition five_messages_ui :: UI where
  "five_messages_ui = NewUI\<lparr>messages := map msg_n [0, 1, 2, 3, 4], messageScroll := 0\<rparr>"

definition ten_messages_ui :: UI where
  "ten_messages_ui =
     NewUI\<lparr>messages := map msg_n [0, 1, 2, 3, 4, 5, 6, 7, 8, 9], messageScroll := 5\<rparr>"

definition three_messages_ui :: UI where
  "three_messages_ui =
     NewUI\<lparr>messages := map msg_n [0, 1, 2], messageScroll := 1, activePane := MessagesPane\<rparr>"

definition abcde :: "string list" where
  "abcde = [''e'', ''d'', ''c'', ''b'', ''a'']"

definition app_A :: App where
  "app_A = \<lparr> mqtt = Some NewMQTTClient, ui = NewUI\<lparr>topics := [''A'']\<rparr>, quitting = False \<rparr>"

definition app_A_desired :: App where
  "app_A_desired =
     app_A\<lparr>ui := (ui app_A)\<lparr>subscribedTopics := go_set DAList.empty ''A'' True\<rparr>\<rparr>"

section \<open>Properties of the Go maps and of the reconciler\<close>

lemma go_get_go_set: "go_get (go_set m k b) k' = (if k' = k then b else go_get m k')"
  by (simp add: go_get_def go_set_def DAList.lookup_update)

lemma go_keys_distinct: "distinct (go_keys m)"
  by (simp add: go_keys_def go_range_def)

lemma set_go_keys_go_set: "set (go_keys (go_set m k b)) = insert k (set (go_keys m))"
  by (simp add: go_keys_def go_range_def go_set_def DAList.update.rep_eq dom_update)

lemma go_get_empty: "go_get DAList.empty k = False"
  by (simp add: go_get_def)

lemma go_keys_empty: "go_keys DAList.empty = []"
  by (simp add: go_keys_def go_range_def DAList.empty.rep_eq)

lemma go_range_true_iff: "(k, True) \<in> set (go_range m) \<longleftrightarrow> go_get m k"
proof -
  have d: "distinct (map fst (DAList.impl_of m))" by simp
  have e: "(k, True) \<in> set (DAList.impl_of m) \<longleftrightarrow> map_of (DAList.impl_of m) k = Some True"
    using d by (metis map_of_eq_Some_iff)
  show ?thesis
    unfolding go_range_def go_get_def DAList.lookup.rep_eq e
    by (cases "map_of (DAList.impl_of m) k") simp_all
qed

lemma set_GetSubscribedTopics: "set (GetSubscribedTopics u) = {t. go_get (subscribedTopics u) t}"
proof -
  have "set (GetSubscribedTopics u) = {k. (k, True) \<in> set (go_range (subscribedTopics u))}"
    by (force simp: GetSubscribedTopics_def)
  then show ?thesis by (simp add: go_range_true_iff)
qed

lemma distinct_GetSubscribedTopics: "distinct (GetSubscribedTopics u)"
  unfolding GetSubscribedTopics_def go_range_def
  by (rule distinct_map_fst_filter) simp

lemma go_get_foldl:
  "go_get (foldl (\<lambda>m topic. go_set m topic True) m0 xs) t \<longleftrightarrow> go_get m0 t \<or> t \<in> set xs"
  by (induction xs arbitrary: m0) (auto simp: go_get_go_set)

lemma go_keys_foldl:
  "set (go_keys (foldl (\<lambda>m topic. go_set m topic True) m0 xs)) = set (go_keys m0) \<union> set xs"
  by (induction xs arbitrary: m0) (auto simp: set_go_keys_go_set)

lemma go_get_slice_to_map: "go_get (slice_to_map xs) t \<longleftrightarrow> t \<in> set xs"
  by (simp add: slice_to_map_def go_get_foldl go_get_empty)

lemma set_go_keys_slice_to_map: "set (go_keys (slice_to_map xs)) = set xs"
  by (simp add: slice_to_map_def go_keys_foldl go_keys_empty)

lemma set_handleSubscriptionChanges:
  "set (handleSubscriptionChanges old new) =
     SubscribeToTopicCmd ` (set new - set old) \<union> UnsubscribeFromTopicCmd ` (set old - set new)"
  by (auto simp: handleSubscriptionChanges_def Let_def go_get_slice_to_map set_go_keys_slice_to_map)

lemma distinct_handleSubscriptionChanges: "distinct (handleSubscriptionChanges old new)"
  by (auto simp: handleSubscriptionChanges_def Let_def distinct_map go_keys_distinct inj_on_def)

lemma handleSubscriptionChanges_same: "handleSubscriptionChanges xs xs = []"
proof -
  have "set (handleSubscriptionChanges xs xs) = {}"
    by (simp add: set_handleSubscriptionChanges)
  then show ?thesis by simp
qed

lemma handleKeyPress_toggle:
  assumes "toggle_key key" "activePane u = TopicsPane" "0 \<le> selectedTopic u"
    "selectedTopic u < len (topics u)"
  shows "handleKeyPress u key =
    Inr (u\<lparr>subscribedTopics := go_set (subscribedTopics u) (topics u ! nat (selectedTopic u))
             (\<not> go_get (subscribedTopics u) (topics u ! nat (selectedTopic u)))\<rparr>)"
  using assms by (auto simp: handleKeyPress_def toggle_key_def index_def)

lemma AddMessage_scroll:
  "messageScroll (AddMessage u t p ts) =
     (if activePane u = MessagesPane \<or> messageScroll u \<ge> len (messages u) - 4
      then len (messages u) else messageScroll u)"
  by (auto simp: AddMessage_def Let_def len_def)

lemma AddMessage_messages:
  "messages (AddMessage u t p ts) = messages u @ [\<lparr>Topic = t, Payload = p, Timestamp = ts\<rparr>]"
  by (simp add: AddMessage_def Let_def)

lemma newest_visible_at_tail:
  assumes "messageScroll u = len (messages u) - 1" "messages u \<noteq> []"
  shows "newest_visible u h"
proof -
  have "len (messages u) > 0" using assms(2) by (simp add: len_def)
  then show ?thesis
    using assms(1)
    by (simp add: newest_visible_def messagesWindow_def renderMessagesPane_def Let_def availableLines_def)
qed

lemma updateTopicScroll_clamped:
  "topicScroll_clamped V (updateTopicScroll u V)"
  by (simp add: updateTopicScroll_def topicScroll_clamped_def Let_def)

lemma updateTopicScroll_topics: "topics (updateTopicScroll u V) = topics u"
  by (simp add: updateTopicScroll_def Let_def)

lemma renderTopicsPane_clamped:
  assumes "topics u \<noteq> [] \<or> topicScroll u = 0"
  shows "topicScroll_clamped (availableLines h) (renderTopicsPane u h)"
proof (cases "topics u = []")
  case True
  then show ?thesis
    using assms by (simp add: renderTopicsPane_def topicScroll_clamped_def len_def)
next
  case False
  then show ?thesis
    by (simp add: renderTopicsPane_def updateTopicScroll_clamped len_def)
qed

lemma handleKeyPress_up_topics:
  "handleKeyPress u ''up'' = Inr u1 \<Longrightarrow> topics u1 = topics u \<and> topicScroll u1 = topicScroll u"
  by (auto simp: handleKeyPress_def split: if_splits)

lemma handleKeyPress_down_topics:
  "handleKeyPress u ''down'' = Inr u1 \<Longrightarrow> topics u1 = topics u \<and> topicScroll u1 = topicScroll u"
  by (auto simp: handleKeyPress_def split: if_splits)

lemma handleKeyPress_up_total: "\<exists>u1. handleKeyPress u ''up'' = Inr u1"
  by (simp add: handleKeyPress_def)

lemma handleKeyPress_down_total: "\<exists>u1. handleKeyPress u ''down'' = Inr u1"
  by (simp add: handleKeyPress_def)

lemma clamped_empty: "topicScroll_clamped V u \<Longrightarrow> topics u = [] \<Longrightarrow> 1 \<le> V \<Longrightarrow> topicScroll u = 0"
  by (simp add: topicScroll_clamped_def len_def)

lemma availableLines_pos: "1 \<le> availableLines h"
  by (simp add: availableLines_def)

lemma apply_TopicOp_clamped:
  assumes "topicScroll_clamped (availableLines h) u"
  shows "\<exists>u1. apply_TopicOp h u op = Inr u1 \<and> topicScroll_clamped (availableLines h) u1"
proof (cases op)
  case MoveUp
  obtain u1 where 1: "handleKeyPress u ''up'' = Inr u1"
    using handleKeyPress_up_total by blast
  then have "topics u1 = topics u" "topicScroll u1 = topicScroll u"
    using handleKeyPress_up_topics by blast+
  then have "topics u1 \<noteq> [] \<or> topicScroll u1 = 0"
    using assms clamped_empty availableLines_pos by metis
  then show ?thesis
    using MoveUp 1 by (simp add: apply_TopicOp_def renderTopicsPane_clamped)
next
  case MoveDown
  obtain u1 where 1: "handleKeyPress u ''down'' = Inr u1"
    using handleKeyPress_down_total by blast
  then have "topics u1 = topics u" "topicScroll u1 = topicScroll u"
    using handleKeyPress_down_topics by blast+
  then have "topics u1 \<noteq> [] \<or> topicScroll u1 = 0"
    using assms clamped_empty availableLines_pos by metis
  then show ?thesis
    using MoveDown 1 by (simp add: apply_TopicOp_def renderTopicsPane_clamped)
next
  case (SetTopicsOp ts)
  have "topicScroll (SetTopics u ts) = 0"
    by (simp add: SetTopics_def Let_def)
  then show ?thesis
    using SetTopicsOp by (simp add: apply_TopicOp_def renderTopicsPane_clamped)
qed

lemma subscribedTopics_SetError: "subscribedTopics (SetError u e) = subscribedTopics u"
  by (simp add: SetError_def)

lemma GetSubscribedTopics_cong:
  "subscribedTopics u1 = subscribedTopics u \<Longrightarrow> GetSubscribedTopics u1 = GetSubscribedTopics u"
  by (simp add: GetSubscribedTopics_def)

lemma subscribedTopics_SetTopics: "subscribedTopics (SetTopics u ts) = subscribedTopics u"
  by (simp add: SetTopics_def Let_def)

lemma subscribedTopics_AddMessage: "subscribedTopics (AddMessage u t p ts) = subscribedTopics u"
  by (simp add: AddMessage_def Let_def)

lemma App_Update_MQTTErrorMsg:
  "App_Update connected a (MQTTErrorMsg e) =
     Inr (a\<lparr>ui := SetError (ui a) (''MQTT Error: '' @ e)\<rparr>, [], [])"
  by (simp add: App_Update_def is_quit_key_def UI_Update_def Let_def handleSubscriptionChanges_same)

lemma App_Update_MQTTConnectedMsg:
  "App_Update connected a MQTTConnectedMsg =
     Inr (a, if mqtt a \<noteq> None then [DiscoverTopicsCmd] else [], [])"
  by (simp add: App_Update_def is_quit_key_def UI_Update_def Let_def handleSubscriptionChanges_same)

lemma is_subscription_action_handle:
  "filter is_subscription_action (handleSubscriptionChanges old new) = handleSubscriptionChanges old new"
  by (simp add: handleSubscriptionChanges_def Let_def is_subscription_action_def filter_map comp_def)

lemma issued_disconnected:
  "filter is_subscription_action (issued False a msg) = []"
proof (cases msg)
  case (KeyMsg key)
  then show ?thesis
    by (cases "handleKeyPress (ui a) key")
       (simp_all add: issued_def App_Update_def UI_Update_def Let_def is_subscription_action_def)
qed (simp_all add: issued_def App_Update_def UI_Update_def Let_def is_subscription_action_def
      is_quit_key_def)

lemma App_Update_state_independent:
  "map_sum id fst (App_Update False a msg) = map_sum id fst (App_Update True a msg)"
proof (cases msg)
  case (KeyMsg key)
  then show ?thesis
    by (cases "handleKeyPress (ui a) key")
       (simp_all add: App_Update_def UI_Update_def Let_def)
qed (simp_all add: App_Update_def UI_Update_def Let_def is_quit_key_def)

lemma issued_diff:
  "filter is_subscription_action (issued connected a msg) =
     (if mqtt a \<noteq> None \<and> connected \<and> \<not> is_quit_key msg \<and> \<not> is_window_size msg
      then handleSubscriptionChanges (GetSubscribedTopics (ui a))
             (GetSubscribedTopics (ui (state_after connected a msg)))
      else [])"
proof (cases msg)
  case (KeyMsg key)
  show ?thesis
  proof (cases "handleKeyPress (ui a) key")
    case (Inl p)
    then show ?thesis using KeyMsg
      by (simp add: issued_def state_after_def App_Update_def UI_Update_def Let_def
          is_subscription_action_def is_window_size_def handleSubscriptionChanges_same)
  next
    case (Inr u1)
    then show ?thesis using KeyMsg
      by (auto simp: issued_def state_after_def App_Update_def UI_Update_def Let_def
          is_subscription_action_def is_window_size_def is_subscription_action_handle)
  qed
next
  case (WindowSizeMsg w h)
  then show ?thesis
    by (simp add: issued_def App_Update_def UI_Update_def is_window_size_def)
next
  case MQTTConnectedMsg
  then show ?thesis
    by (simp add: issued_def state_after_def App_Update_MQTTConnectedMsg is_subscription_action_def
        is_quit_key_def is_window_size_def handleSubscriptionChanges_same)
next
  case MQTTDisconnectedMsg
  then show ?thesis
    by (simp add: issued_def state_after_def App_Update_def UI_Update_def Let_def
        is_quit_key_def is_window_size_def handleSubscriptionChanges_same)
next
  case (MQTTTopicsDiscoveredMsg ts)
  have "GetSubscribedTopics (SetTopics (ui a) ts) = GetSubscribedTopics (ui a)"
    by (rule GetSubscribedTopics_cong) (rule subscribedTopics_SetTopics)
  then show ?thesis using MQTTTopicsDiscoveredMsg
    by (simp add: issued_def state_after_def App_Update_def UI_Update_def Let_def
        is_quit_key_def is_window_size_def handleSubscriptionChanges_same)
next
  case (MQTTMessageMsg t p ts)
  have "GetSubscribedTopics (AddMessage (ui a) t p ts) = GetSubscribedTopics (ui a)"
    by (rule GetSubscribedTopics_cong) (rule subscribedTopics_AddMessage)
  then show ?thesis using MQTTMessageMsg
    by (simp add: issued_def state_after_def App_Update_def UI_Update_def Let_def
        is_quit_key_def is_window_size_def handleSubscriptionChanges_same)
next
  case (MQTTErrorMsg e)
  have "GetSubscribedTopics (SetError (ui a) (''MQTT Error: '' @ e)) = GetSubscribedTopics (ui a)"
    by (rule GetSubscribedTopics_cong) (rule subscribedTopics_SetError)
  then show ?thesis using MQTTErrorMsg
    by (simp add: issued_def state_after_def App_Update_MQTTErrorMsg
        is_quit_key_def is_window_size_def handleSubscriptionChanges_same)
qed

lemma App_Update_key_disconnected:
  "App_Update False a (KeyMsg key) =
     (if key = ''ctrl+c'' \<or> key = ''q''
      then Inr (a\<lparr>quitting := True\<rparr>, [Quit], if mqtt a \<noteq> None then [Disconnect] else [])
      else case handleKeyPress (ui a) key of
             Inl p \<Rightarrow> Inl p
           | Inr u \<Rightarrow> Inr (a\<lparr>ui := u\<rparr>, [], []))"
  by (cases "handleKeyPress (ui a) key")
     (simp_all add: App_Update_def UI_Update_def Let_def is_quit_key_def)

section \<open>Reachable states\<close>

text \<open>
  The ranges of the selection index and of the message scroll cursor hold in the initial
  state and are kept by every turn of the event loop, whatever the messages and whatever
  the gateway answers about its connection. So the event loop never panics, and the states
  to which the theorems on toggling and on message navigation apply include every state the
  program reaches.
\<close>

lemma ui_inv_NewUI: "ui_inv NewUI"
  by (simp add: ui_inv_def selectedTopic_ok_def messageScroll_ok_def NewUI_def len_def)

lemma handleKeyPress_inv:
  assumes "ui_inv u"
  shows "\<exists>u1. handleKeyPress u key = Inr u1 \<and> ui_inv u1"
proof -
  have i: "0 \<le> selectedTopic u" "selectedTopic u \<le> max 0 (len (topics u) - 1)"
    "0 \<le> messageScroll u" "messageScroll u \<le> max 0 (len (messages u) - 1)"
    using assms by (simp_all add: ui_inv_def selectedTopic_ok_def messageScroll_ok_def)
  show ?thesis
  proof (cases "key = ''tab''")
    case True
    then show ?thesis using assms
      by (simp add: handleKeyPress_def ui_inv_def selectedTopic_ok_def messageScroll_ok_def)
  next
    case nt: False
    show ?thesis
    proof (cases "key = ''up'' \<or> key = ''k''")
      case True
      have "handleKeyPress u key =
        Inr (if activePane u = TopicsPane then
              (if selectedTopic u > 0 then u\<lparr>selectedTopic := selectedTopic u - 1\<rparr> else u)
            else
              (if messageScroll u > 0 then u\<lparr>messageScroll := messageScroll u - 1\<rparr> else u))"
        unfolding handleKeyPress_def using nt True by simp
      then show ?thesis using i
        by (auto simp: ui_inv_def selectedTopic_ok_def messageScroll_ok_def max_def split: if_splits)
    next
      case nu: False
      show ?thesis
      proof (cases "key = ''down'' \<or> key = ''j''")
        case True
        have "handleKeyPress u key =
          Inr (if activePane u = TopicsPane then
              (if selectedTopic u < len (topics u) - 1
               then u\<lparr>selectedTopic := selectedTopic u + 1\<rparr> else u)
            else
              (if messageScroll u < len (messages u) - 1
               then u\<lparr>messageScroll := messageScroll u + 1\<rparr> else u))"
          unfolding handleKeyPress_def using nt nu True by simp
        then show ?thesis using i
          by (auto simp: ui_inv_def selectedTopic_ok_def messageScroll_ok_def max_def split: if_splits)
      next
        case nd: False
        show ?thesis
        proof (cases "toggle_key key")
          case toggle: True
          show ?thesis
          proof (cases "activePane u = TopicsPane \<and> len (topics u) > 0")
            case True
            then have "selectedTopic u < len (topics u)" using i by simp
            then show ?thesis
              using handleKeyPress_toggle [OF toggle, of u] True i assms
              by (simp add: ui_inv_def selectedTopic_ok_def messageScroll_ok_def)
          next
            case False
            have "key = ''enter'' \<or> key = '' ''"
              using toggle by (simp add: toggle_key_def)
            then have "handleKeyPress u key = Inr u"
              unfolding handleKeyPress_def using nt nu nd False by auto
            then show ?thesis using assms by simp
          qed
        next
          case False
          then have ne: "\<not> (key = ''enter'' \<or> key = '' '')"
            by (simp add: toggle_key_def)
          show ?thesis
          proof (cases "key = ''r''")
            case True
            have "handleKeyPress u key = Inr (u\<lparr>messages := [], messageScroll := 0\<rparr>)"
              unfolding handleKeyPress_def using nt nu nd ne True by simp
            then show ?thesis using i
              by (simp add: ui_inv_def selectedTopic_ok_def messageScroll_ok_def len_def)
          next
            case False
            have "handleKeyPress u key = Inr u"
              unfolding handleKeyPress_def using nt nu nd ne False by simp
            then show ?thesis using assms by simp
          qed
        qed
      qed
    qed
  qed
qed

lemma SetTopics_inv: "ui_inv u \<Longrightarrow> ui_inv (SetTopics u ts)"
  by (auto simp: SetTopics_def Let_def ui_inv_def selectedTopic_ok_def messageScroll_ok_def len_def)

lemma AddMessage_inv: "ui_inv u \<Longrightarrow> ui_inv (AddMessage u t p ts)"
  by (auto simp: AddMessage_def Let_def ui_inv_def selectedTopic_ok_def messageScroll_ok_def len_def)

lemma SetError_inv: "ui_inv u \<Longrightarrow> ui_inv (SetError u e)"
  by (simp add: SetError_def ui_inv_def selectedTopic_ok_def messageScroll_ok_def)

lemma UI_Update_inv:
  assumes "ui_inv u"
  shows "\<exists>u1. UI_Update u msg = Inr u1 \<and> ui_inv u1"
proof (cases msg)
  case (KeyMsg key)
  then show ?thesis using handleKeyPress_inv [OF assms] by (simp add: UI_Update_def)
next
  case (WindowSizeMsg w h)
  then show ?thesis using assms
    by (simp add: UI_Update_def ui_inv_def selectedTopic_ok_def messageScroll_ok_def)
qed (use assms in \<open>simp_all add: UI_Update_def\<close>)

lemma updateTopicScroll_selectedTopic:
  assumes "0 \<le> selectedTopic u" "selectedTopic u < len (topics u)"
  shows "selectedTopic (updateTopicScroll u V) = selectedTopic u"
proof -
  have a: "\<not> selectedTopic u < 0" "\<not> len (topics u) \<le> selectedTopic u" "len (topics u) \<noteq> 0"
    using assms by simp_all
  show ?thesis
    by (simp add: updateTopicScroll_def Let_def a)
qed

lemma updateTopicScroll_inv:
  assumes "ui_inv u"
  shows "ui_inv (updateTopicScroll u V)"
proof (cases "topics u = []")
  case True
  then show ?thesis
    using assms
    by (simp add: updateTopicScroll_def ui_inv_def selectedTopic_ok_def messageScroll_ok_def len_def)
next
  case False
  then have n: "0 < len (topics u)" by (simp add: len_def)
  have i: "0 \<le> selectedTopic u" "selectedTopic u < len (topics u)"
    using assms n by (simp_all add: ui_inv_def selectedTopic_ok_def)
  have m: "messages (updateTopicScroll u V) = messages u"
    "messageScroll (updateTopicScroll u V) = messageScroll u"
    "topics (updateTopicScroll u V) = topics u"
    by (simp_all add: updateTopicScroll_def Let_def)
  show ?thesis
    using assms
    by (simp add: ui_inv_def selectedTopic_ok_def messageScroll_ok_def m
        updateTopicScroll_selectedTopic [OF i])
qed

lemma renderTopicsPane_inv: "ui_inv u \<Longrightarrow> ui_inv (renderTopicsPane u h)"
  by (simp add: renderTopicsPane_def updateTopicScroll_inv)

lemma renderMessagesPane_scroll:
  assumes "messages u \<noteq> []"
  shows "messageScroll (renderMessagesPane u h) =
           max 0 (min (messageScroll u) (max 0 (len (messages u) - availableLines h)))"
proof -
  have n: "len (messages u) \<noteq> 0" using assms by (simp add: len_def)
  show ?thesis
    by (simp add: renderMessagesPane_def Let_def n min_def max_def)
qed

lemma renderMessagesPane_inv:
  assumes "ui_inv u"
  shows "ui_inv (renderMessagesPane u h)"
proof (cases "messages u = []")
  case True
  then show ?thesis using assms by (simp add: renderMessagesPane_def len_def)
next
  case False
  have k: "topics (renderMessagesPane u h) = topics u"
    "selectedTopic (renderMessagesPane u h) = selectedTopic u"
    "messages (renderMessagesPane u h) = messages u"
    by (simp_all add: renderMessagesPane_def Let_def)
  have a: "1 \<le> availableLines h" by (rule availableLines_pos)
  have "0 \<le> messageScroll (renderMessagesPane u h)
        \<and> messageScroll (renderMessagesPane u h) \<le> max 0 (len (messages u) - 1)"
    unfolding renderMessagesPane_scroll [OF False] using a by linarith
  then show ?thesis
    using assms by (simp add: ui_inv_def selectedTopic_ok_def messageScroll_ok_def k)
qed

lemma View_inv: "ui_inv u \<Longrightarrow> ui_inv (View u)"
  by (simp add: View_def Let_def renderTopicsPane_inv renderMessagesPane_inv)

lemma App_Update_inv:
  assumes "ui_inv (ui a)"
  shows "\<exists>r. App_Update connected a msg = Inr r \<and> ui_inv (ui (fst r))"
proof (cases "is_quit_key msg")
  case True
  then obtain key where "msg = KeyMsg key"
    by (cases msg) (simp_all add: is_quit_key_def)
  then show ?thesis using True assms by (simp add: App_Update_def)
next
  case False
  show ?thesis
  proof (cases msg)
    case (WindowSizeMsg w h)
    then show ?thesis using UI_Update_inv [OF assms, of msg]
      by (auto simp: App_Update_def)
  next
    case (KeyMsg key)
    then show ?thesis using False UI_Update_inv [OF assms, of msg]
      by (auto simp: App_Update_def Let_def)
  next
    case MQTTConnectedMsg
    then show ?thesis using assms
      by (simp add: App_Update_def Let_def is_quit_key_def UI_Update_def)
  next
    case MQTTDisconnectedMsg
    then show ?thesis using assms
      by (simp add: App_Update_def Let_def is_quit_key_def UI_Update_def)
  next
    case (MQTTTopicsDiscoveredMsg ts)
    then show ?thesis using SetTopics_inv [OF assms, of ts]
      by (simp add: App_Update_def Let_def is_quit_key_def UI_Update_def)
  next
    case (MQTTMessageMsg t p ts)
    then show ?thesis using AddMessage_inv [OF assms, of t p ts]
      by (simp add: App_Update_def Let_def is_quit_key_def UI_Update_def)
  next
    case (MQTTErrorMsg e)
    then show ?thesis using SetError_inv [OF assms]
      by (simp add: App_Update_def Let_def is_quit_key_def UI_Update_def)
  qed
qed

lemma event_loop_step_inv:
  assumes "ui_inv (ui a)"
  shows "\<exists>a1. event_loop_step a ev = Inr a1 \<and> ui_inv (ui a1)"
proof -
  obtain r where "App_Update (fst ev) a (snd ev) = Inr r" "ui_inv (ui (fst r))"
    using App_Update_inv [OF assms] by blast
  then show ?thesis
    by (simp add: event_loop_step_def App_View_def View_inv)
qed

lemma event_loop_never_panics:
  assumes "ui_inv (ui a)"
  shows "\<exists>a1. event_loop a evs = Inr a1 \<and> ui_inv (ui a1)"
  using assms
proof (induction evs arbitrary: a)
  case Nil
  then show ?case by simp
next
  case (Cons ev evs)
  obtain a1 where 1: "event_loop_step a ev = Inr a1" and 2: "ui_inv (ui a1)"
    using event_loop_step_inv [OF Cons.prems] by blast
  from Cons.IH [OF 2] show ?case using 1 by simp
qed

lemma reachable_from_NewApp:
  "\<exists>a1. event_loop NewApp evs = Inr a1 \<and> ui_inv (ui a1)"
  by (rule event_loop_never_panics) (simp add: NewApp_def ui_inv_NewUI)

section \<open>Catalog replacement\<close>

text \<open>
  Claim C6. For every prior selection index, \<^verbatim>\<open>SetTopics\<close> with a new topic list leaves the
  selection index clamped to the new length: an index at or beyond the new length moves to
  the new last index, the index is 0 when the new list is empty, an index inside the new
  list stays; the topic scroll cursor is reset to 0. The catalog becomes the sorted list.
\<close>

theorem SetTopics_reclamps:
  "selectedTopic (SetTopics u ts) =
     (if ts = [] then 0
      else if selectedTopic u \<ge> len ts then len ts - 1
      else if selectedTopic u < 0 then 0
      else selectedTopic u)
   \<and> topicScroll (SetTopics u ts) = 0
   \<and> topics (SetTopics u ts) = sort ts"
  by (cases ts) (simp_all add: SetTopics_def Let_def len_def)

section \<open>Subscription reconciliation\<close>

text \<open>
  Claim C1. For every subscription set and every applied topic list, the commands that
  \<^verbatim>\<open>handleSubscriptionChanges\<close> computes from the applied topics and the subscribed topics
  are: a subscribe command exactly for the topics whose desired flag is true and that are
  not applied, an unsubscribe command exactly for the applied topics whose desired flag is
  not true, and no command twice. For desired \<open>{A: true, B: false, C: true}\<close> and applied
  \<open>{B, C}\<close> the commands are subscribe A and unsubscribe B, and none for C.
\<close>

theorem reconciliation_minimal:
  "set (handleSubscriptionChanges applied (GetSubscribedTopics u)) =
     {SubscribeToTopicCmd t | t. go_get (subscribedTopics u) t \<and> t \<notin> set applied}
     \<union> {UnsubscribeFromTopicCmd t | t. t \<in> set applied \<and> \<not> go_get (subscribedTopics u) t}
   \<and> distinct (handleSubscriptionChanges applied (GetSubscribedTopics u))
   \<and> set (handleSubscriptionChanges [''B'', ''C'']
        (GetSubscribedTopics (NewUI\<lparr>subscribedTopics :=
           go_set (go_set (go_set DAList.empty ''A'' True) ''B'' False) ''C'' True\<rparr>)))
      = {SubscribeToTopicCmd ''A'', UnsubscribeFromTopicCmd ''B''}"
proof (intro conjI)
  show "set (handleSubscriptionChanges applied (GetSubscribedTopics u)) =
     {SubscribeToTopicCmd t | t. go_get (subscribedTopics u) t \<and> t \<notin> set applied}
     \<union> {UnsubscribeFromTopicCmd t | t. t \<in> set applied \<and> \<not> go_get (subscribedTopics u) t}"
    by (auto simp: set_handleSubscriptionChanges set_GetSubscribedTopics)
  show "distinct (handleSubscriptionChanges applied (GetSubscribedTopics u))"
    by (rule distinct_handleSubscriptionChanges)
  show "set (handleSubscriptionChanges [''B'', ''C'']
        (GetSubscribedTopics (NewUI\<lparr>subscribedTopics :=
           go_set (go_set (go_set DAList.empty ''A'' True) ''B'' False) ''C'' True\<rparr>)))
      = {SubscribeToTopicCmd ''A'', UnsubscribeFromTopicCmd ''B''}"
    by (auto simp: set_handleSubscriptionChanges set_GetSubscribedTopics go_get_go_set go_get_empty)
qed

text \<open>
  Claim C2 fails. With the gateway connected, toggling topic A issues subscribe A. When the
  subscribe fails, the error message arrives; the desired flag of A is still true, and the
  pass that handles the message, like the next pass, issues nothing: subscribe A is not
  issued again.
\<close>

theorem failed_subscribe_counterexample:
  "App_Update True app_A (KeyMsg ''enter'') = Inr (app_A_desired, [SubscribeToTopicCmd ''A''], [])
   \<and> subscribeToTopicCmd ''A'' (Some ''refused'')
       = Some (MQTTErrorMsg ''failed to subscribe to A: refused'')
   \<and> go_get (subscribedTopics (ui app_A_desired)) ''A''
   \<and> App_Update True app_A_desired (MQTTErrorMsg ''failed to subscribe to A: refused'')
       = Inr (app_A_desired\<lparr>ui := SetError (ui app_A_desired)
                ''MQTT Error: failed to subscribe to A: refused''\<rparr>, [], [])
   \<and> App_Update True
        (app_A_desired\<lparr>ui := SetError (ui app_A_desired)
                ''MQTT Error: failed to subscribe to A: refused''\<rparr>)
        (MQTTMessageMsg ''A'' ''x'' 0)
       = Inr (app_A_desired\<lparr>ui := AddMessage (SetError (ui app_A_desired)
                ''MQTT Error: failed to subscribe to A: refused'') ''A'' ''x'' 0\<rparr>, [], [])"
  by code_simp

text \<open>
  Claim C2, amended. A failed subscribe action for a topic posts an error message. The pass
  that handles an error message records the error text, leaves the subscription set as it
  is and issues no command. No applied set is kept: the subscribe and unsubscribe commands
  of a pass are the difference between the subscribed topics after the pass and those
  before it (and none when the gateway is absent or disconnected, or the message is a quit
  key or a window size), so a pass that leaves the desired set unchanged issues none and a
  failed subscribe is not retried.
\<close>

theorem failed_subscribe_not_retried:
  "subscribeToTopicCmd topic (Some err)
     = Some (MQTTErrorMsg (''failed to subscribe to '' @ topic @ '': '' @ err))
   \<and> App_Update connected a (MQTTErrorMsg e)
     = Inr (a\<lparr>ui := SetError (ui a) (''MQTT Error: '' @ e)\<rparr>, [], [])
   \<and> subscribedTopics (SetError (ui a) (''MQTT Error: '' @ e)) = subscribedTopics (ui a)
   \<and> filter is_subscription_action (issued connected a msg) =
       (if mqtt a \<noteq> None \<and> connected \<and> \<not> is_quit_key msg \<and> \<not> is_window_size msg
        then handleSubscriptionChanges (GetSubscribedTopics (ui a))
               (GetSubscribedTopics (ui (state_after connected a msg)))
        else [])
   \<and> handleSubscriptionChanges (GetSubscribedTopics (ui a)) (GetSubscribedTopics (ui a)) = []"
proof (intro conjI)
  show "subscribeToTopicCmd topic (Some err)
     = Some (MQTTErrorMsg (''failed to subscribe to '' @ topic @ '': '' @ err))"
    by (simp add: subscribeToTopicCmd_def)
  show "App_Update connected a (MQTTErrorMsg e)
     = Inr (a\<lparr>ui := SetError (ui a) (''MQTT Error: '' @ e)\<rparr>, [], [])"
    by (rule App_Update_MQTTErrorMsg)
  show "subscribedTopics (SetError (ui a) (''MQTT Error: '' @ e)) = subscribedTopics (ui a)"
    by (rule subscribedTopics_SetError)
  show "filter is_subscription_action (issued connected a msg) =
       (if mqtt a \<noteq> None \<and> connected \<and> \<not> is_quit_key msg \<and> \<not> is_window_size msg
        then handleSubscriptionChanges (GetSubscribedTopics (ui a))
               (GetSubscribedTopics (ui (state_after connected a msg)))
        else [])"
    by (rule issued_diff)
  show "handleSubscriptionChanges (GetSubscribedTopics (ui a)) (GetSubscribedTopics (ui a)) = []"
    by (rule handleSubscriptionChanges_same)
qed

text \<open>
  Claim C9 fails in its last part. Topic A is toggled while the gateway is disconnected:
  nothing is issued and A is desired. When the connection is then reported, the pass issues
  the topic discovery and no subscribe command for A.
\<close>

theorem disconnected_reconciliation_counterexample:
  "App_Update False app_A (KeyMsg ''enter'') = Inr (app_A_desired, [], [])
   \<and> GetSubscribedTopics (ui app_A_desired) = [''A'']
   \<and> App_Update True app_A_desired MQTTConnectedMsg
       = Inr (app_A_desired, [DiscoverTopicsCmd], [])"
  by code_simp

text \<open>
  Claim C9, amended. While the gateway reports itself disconnected, no pass issues a
  subscribe or unsubscribe command; a key other than a quit key only changes the UI state,
  so toggles accumulate in the subscription set, and the state after a pass is the same
  whether connected or not. The pass that handles the connection message leaves the state
  as it is and issues only the topic discovery command (when there is a gateway): no
  reconciliation against an empty applied set takes place.
\<close>

theorem disconnected_reconciliation:
  "filter is_subscription_action (issued False a msg) = []
   \<and> App_Update False a (KeyMsg key) =
       (if key = ''ctrl+c'' \<or> key = ''q''
        then Inr (a\<lparr>quitting := True\<rparr>, [Quit], if mqtt a \<noteq> None then [Disconnect] else [])
        else case handleKeyPress (ui a) key of
               Inl p \<Rightarrow> Inl p
             | Inr u \<Rightarrow> Inr (a\<lparr>ui := u\<rparr>, [], []))
   \<and> map_sum id fst (App_Update False a msg) = map_sum id fst (App_Update True a msg)
   \<and> App_Update connected a MQTTConnectedMsg
       = Inr (a, if mqtt a \<noteq> None then [DiscoverTopicsCmd] else [], [])"
  using issued_disconnected [of a msg] App_Update_key_disconnected [of a key]
    App_Update_state_independent [of a msg] App_Update_MQTTConnectedMsg [of connected a]
  by simp

section \<open>The topic registry\<close>

text \<open>
  Claim C8. For every sequence of observed topics, the snapshot of the registry, once
  handed to the UI by \<^verbatim>\<open>SetTopics\<close>, is sorted ascending, holds no topic twice, and
  holds exactly the observed topics.
\<close>

theorem registry_snapshot_sorted_distinct:
  "sorted (topics (SetTopics u (DiscoverTopicsCmd_topics (foldl discoveryHandler NewMQTTClient obs))))
   \<and> distinct (topics (SetTopics u (DiscoverTopicsCmd_topics (foldl discoveryHandler NewMQTTClient obs))))
   \<and> set (topics (SetTopics u (DiscoverTopicsCmd_topics (foldl discoveryHandler NewMQTTClient obs))))
       = set obs"
proof -
  have k: "set (go_keys (discoveredTopics (foldl discoveryHandler m obs)))
           = set (go_keys (discoveredTopics m)) \<union> set obs" for m
    by (induction obs arbitrary: m) (auto simp: discoveryHandler_def set_go_keys_go_set)
  have t: "topics (SetTopics u ts) = sort ts" for ts
    by (simp add: SetTopics_def Let_def)
  show ?thesis
    by (simp add: t DiscoverTopicsCmd_topics_def k NewMQTTClient_def go_keys_empty go_keys_distinct)
qed

section \<open>Toggling a subscription\<close>

text \<open>
  Claim C7. In a state with focus on the topics pane, a non-empty catalog and the
  selection index inside the catalog, two toggle keys in a row succeed, leave selection and
  catalog alone, flip the desired flag of the selected topic and flip it back: the flag of
  every topic reads as it did before.
\<close>

theorem toggle_twice_restores:
  assumes "activePane u = TopicsPane" and "topics u \<noteq> []"
    and "0 \<le> selectedTopic u" and "selectedTopic u < len (topics u)"
    and "toggle_key k1" and "toggle_key k2"
  shows "\<exists>u1 u2. handleKeyPress u k1 = Inr u1 \<and> handleKeyPress u1 k2 = Inr u2
           \<and> selectedTopic u2 = selectedTopic u \<and> topics u2 = topics u
           \<and> go_get (subscribedTopics u1) (topics u ! nat (selectedTopic u))
               = (\<not> go_get (subscribedTopics u) (topics u ! nat (selectedTopic u)))
           \<and> go_get (subscribedTopics u2) (topics u ! nat (selectedTopic u))
               = go_get (subscribedTopics u) (topics u ! nat (selectedTopic u))
           \<and> go_get (subscribedTopics u2) = go_get (subscribedTopics u)"
proof -
  let ?t = "topics u ! nat (selectedTopic u)"
  let ?u1 = "u\<lparr>subscribedTopics := go_set (subscribedTopics u) ?t (\<not> go_get (subscribedTopics u) ?t)\<rparr>"
  let ?u2 = "?u1\<lparr>subscribedTopics := go_set (subscribedTopics ?u1) ?t (\<not> go_get (subscribedTopics ?u1) ?t)\<rparr>"
  have 1: "handleKeyPress u k1 = Inr ?u1"
    using assms by (simp add: handleKeyPress_toggle)
  have 2: "handleKeyPress ?u1 k2 = Inr ?u2"
    using assms handleKeyPress_toggle [of k2 ?u1] by simp
  have 3: "go_get (subscribedTopics ?u2) = go_get (subscribedTopics u)"
    by (rule ext) (simp add: go_get_go_set)
  have 4: "go_get (subscribedTopics ?u1) ?t = (\<not> go_get (subscribedTopics u) ?t)"
    by (simp add: go_get_go_set)
  show ?thesis
    using 1 2 3 4 by (intro exI [of _ ?u1] exI [of _ ?u2]) simp
qed

theorem toggle_twice_restores_witness:
  "\<exists>u1 u2. handleKeyPress example_ui ''enter'' = Inr u1 \<and> handleKeyPress u1 '' '' = Inr u2
     \<and> go_get (subscribedTopics u1) ''b/2'' \<and> \<not> go_get (subscribedTopics u2) ''b/2''"
proof -
  have h: "activePane example_ui = TopicsPane" "topics example_ui \<noteq> []"
    "0 \<le> selectedTopic example_ui" "selectedTopic example_ui < len (topics example_ui)"
    "toggle_key ''enter''" "toggle_key '' ''"
    by (simp_all add: example_ui_def NewUI_def len_def toggle_key_def)
  have e: "topics example_ui ! nat (selectedTopic example_ui) = ''b/2''"
    by (simp add: example_ui_def NewUI_def)
  have g: "\<not> go_get (subscribedTopics example_ui) ''b/2''"
    by (simp add: example_ui_def NewUI_def go_get_empty)
  from toggle_twice_restores [OF h] obtain u1 u2 where
    "handleKeyPress example_ui ''enter'' = Inr u1" "handleKeyPress u1 '' '' = Inr u2"
    "go_get (subscribedTopics u1) (topics example_ui ! nat (selectedTopic example_ui))
               = (\<not> go_get (subscribedTopics example_ui) (topics example_ui ! nat (selectedTopic example_ui)))"
    "go_get (subscribedTopics u2) (topics example_ui ! nat (selectedTopic example_ui))
               = go_get (subscribedTopics example_ui) (topics example_ui ! nat (selectedTopic example_ui))"
    by blast
  then show ?thesis using e g by auto
qed

text \<open>
  Claim C10. In a state with focus on the topics pane, a non-empty catalog and the
  selection index inside the catalog, if the selected topic has no entry in the
  subscription set, then it reads as not desired and is not among the subscribed topics,
  and one toggle key stores the flag true for it and makes it a subscribed topic.
\<close>

theorem first_toggle_subscribes:
  assumes "activePane u = TopicsPane" and "topics u \<noteq> []"
    and "0 \<le> selectedTopic u" and "selectedTopic u < len (topics u)"
    and "toggle_key key"
    and "DAList.lookup (subscribedTopics u) (topics u ! nat (selectedTopic u)) = None"
  shows "\<exists>u1. handleKeyPress u key = Inr u1
           \<and> DAList.lookup (subscribedTopics u1) (topics u ! nat (selectedTopic u)) = Some True
           \<and> go_get (subscribedTopics u1) (topics u ! nat (selectedTopic u))
           \<and> topics u ! nat (selectedTopic u) \<in> set (GetSubscribedTopics u1)
           \<and> topics u ! nat (selectedTopic u) \<notin> set (GetSubscribedTopics u)
           \<and> \<not> go_get (subscribedTopics u) (topics u ! nat (selectedTopic u))"
proof -
  let ?t = "topics u ! nat (selectedTopic u)"
  have g: "\<not> go_get (subscribedTopics u) ?t"
    using assms(6) by (simp add: go_get_def)
  let ?u1 = "u\<lparr>subscribedTopics := go_set (subscribedTopics u) ?t True\<rparr>"
  have 1: "handleKeyPress u key = Inr ?u1"
    using assms g by (simp add: handleKeyPress_toggle)
  have 2: "DAList.lookup (subscribedTopics ?u1) ?t = Some True"
    by (simp add: go_set_def)
  have 3: "go_get (subscribedTopics ?u1) ?t"
    by (simp add: go_get_go_set)
  show ?thesis
    using 1 2 3 g by (intro exI [of _ ?u1]) (simp add: set_GetSubscribedTopics)
qed

theorem first_toggle_subscribes_witness:
  "\<exists>u1. handleKeyPress example_ui ''enter'' = Inr u1
      \<and> DAList.lookup (subscribedTopics u1) ''b/2'' = Some True
      \<and> ''b/2'' \<in> set (GetSubscribedTopics u1)"
proof -
  have h: "activePane example_ui = TopicsPane" "topics example_ui \<noteq> []"
    "0 \<le> selectedTopic example_ui" "selectedTopic example_ui < len (topics example_ui)"
    "toggle_key ''enter''"
    "DAList.lookup (subscribedTopics example_ui) (topics example_ui ! nat (selectedTopic example_ui)) = None"
    by (simp_all add: example_ui_def NewUI_def len_def toggle_key_def)
  have e: "topics example_ui ! nat (selectedTopic example_ui) = ''b/2''"
    by (simp add: example_ui_def NewUI_def)
  from first_toggle_subscribes [OF h] show ?thesis
    unfolding e by blast
qed

section \<open>The message stream\<close>

text \<open>
  Claim C3 fails on the boundary. With the topics pane focused, a cursor at the fifth
  position from the end of the previous stream (position 0 of 5 messages, position 5 of 10)
  is within the last 5 positions of the previous tail, and the append leaves it where it is.
\<close>

theorem auto_follow_counterexample:
  "activePane five_messages_ui = TopicsPane
   \<and> len (messages five_messages_ui) = 5
   \<and> messageScroll five_messages_ui = len (messages five_messages_ui) - 5
   \<and> messageScroll (AddMessage five_messages_ui ''t'' ''p'' 5) = 0
   \<and> activePane ten_messages_ui = TopicsPane
   \<and> len (messages ten_messages_ui) = 10
   \<and> messageScroll ten_messages_ui = len (messages ten_messages_ui) - 5
   \<and> messageScroll (AddMessage ten_messages_ui ''t'' ''p'' 10) = 5"
  by (simp add: five_messages_ui_def ten_messages_ui_def NewUI_def AddMessage_def Let_def len_def)

text \<open>
  Claim C3, amended. An append adds the message at the end. If the messages pane has focus,
  or the cursor is within the last 5 positions of the stream as it is after the append
  (cursor at least the new length minus 5, which is the last 4 positions of the previous
  stream), the cursor moves to the index of the new message, and the new message lies in
  the visible window of the next rendering, whatever the pane height; otherwise the cursor
  stays as it is.
\<close>

theorem auto_follow:
  "messages (AddMessage u t p ts) = messages u @ [\<lparr>Topic = t, Payload = p, Timestamp = ts\<rparr>]
   \<and> messageScroll (AddMessage u t p ts) =
       (if activePane u = MessagesPane \<or> messageScroll u \<ge> len (messages u) + 1 - 5
        then len (messages u) else messageScroll u)
   \<and> (activePane u = MessagesPane \<or> messageScroll u \<ge> len (messages u) + 1 - 5
        \<longrightarrow> newest_visible (AddMessage u t p ts) h)"
proof (intro conjI impI)
  show "messages (AddMessage u t p ts) = messages u @ [\<lparr>Topic = t, Payload = p, Timestamp = ts\<rparr>]"
    by (rule AddMessage_messages)
  show "messageScroll (AddMessage u t p ts) =
       (if activePane u = MessagesPane \<or> messageScroll u \<ge> len (messages u) + 1 - 5
        then len (messages u) else messageScroll u)"
    by (simp add: AddMessage_scroll)
  assume c: "activePane u = MessagesPane \<or> messageScroll u \<ge> len (messages u) + 1 - 5"
  have "messageScroll (AddMessage u t p ts) = len (messages (AddMessage u t p ts)) - 1"
    using c by (simp add: AddMessage_scroll AddMessage_messages len_def)
  moreover have "messages (AddMessage u t p ts) \<noteq> []"
    by (simp add: AddMessage_messages)
  ultimately show "newest_visible (AddMessage u t p ts) h"
    by (rule newest_visible_at_tail)
qed

theorem auto_follow_witness:
  "messageScroll (AddMessage (five_messages_ui\<lparr>messageScroll := 1\<rparr>) ''t'' ''p'' 5) = 5
   \<and> newest_visible (AddMessage (five_messages_ui\<lparr>messageScroll := 1\<rparr>) ''t'' ''p'' 5) 10"
  using auto_follow [of "five_messages_ui\<lparr>messageScroll := 1\<rparr>" "''t''" "''p''" 5 10]
  by (simp add: five_messages_ui_def NewUI_def len_def)

text \<open>
  Claim C5. With focus on the messages pane and the cursor in \<open>[0, max(0, L - 1)]\<close>, the keys
  \<^verbatim>\<open>up\<close>/\<^verbatim>\<open>k\<close> decrement the cursor unless it is 0, the keys \<^verbatim>\<open>down\<close>/\<^verbatim>\<open>j\<close> increment
  it unless it is at the last index, nothing else changes, the cursor stays in
  \<open>[0, max(0, L - 1)]\<close>, and with an empty stream it is 0 and stays 0.
\<close>

theorem message_pane_navigation:
  assumes "activePane u = MessagesPane" and "messageScroll_ok u"
    and "kup = ''up'' \<or> kup = ''k''" and "kdown = ''down'' \<or> kdown = ''j''"
  shows "handleKeyPress u kup = Inr (u\<lparr>messageScroll := max 0 (messageScroll u - 1)\<rparr>)
       \<and> handleKeyPress u kdown =
           Inr (u\<lparr>messageScroll := min (max 0 (len (messages u) - 1)) (messageScroll u + 1)\<rparr>)
       \<and> messageScroll_ok (u\<lparr>messageScroll := max 0 (messageScroll u - 1)\<rparr>)
       \<and> messageScroll_ok
           (u\<lparr>messageScroll := min (max 0 (len (messages u) - 1)) (messageScroll u + 1)\<rparr>)
       \<and> (messages u = [] \<longrightarrow> messageScroll u = 0
            \<and> handleKeyPress u kup = Inr u \<and> handleKeyPress u kdown = Inr u)"
proof -
  have r: "u\<lparr>messageScroll := messageScroll u\<rparr> = u" by simp
  have up: "handleKeyPress u kup = Inr (u\<lparr>messageScroll := max 0 (messageScroll u - 1)\<rparr>)"
  proof (cases "messageScroll u > 0")
    case True
    then have "max 0 (messageScroll u - 1) = messageScroll u - 1" by simp
    then show ?thesis using assms True by (auto simp: handleKeyPress_def)
  next
    case False
    then have "max 0 (messageScroll u - 1) = messageScroll u"
      using assms(2) by (simp add: messageScroll_ok_def)
    then show ?thesis using assms False r by (auto simp: handleKeyPress_def)
  qed
  have down: "handleKeyPress u kdown =
           Inr (u\<lparr>messageScroll := min (max 0 (len (messages u) - 1)) (messageScroll u + 1)\<rparr>)"
  proof (cases "messageScroll u < len (messages u) - 1")
    case True
    then have "min (max 0 (len (messages u) - 1)) (messageScroll u + 1) = messageScroll u + 1"
      by simp
    then show ?thesis using assms True by (auto simp: handleKeyPress_def)
  next
    case False
    then have "min (max 0 (len (messages u) - 1)) (messageScroll u + 1) = messageScroll u"
      using assms(2) by (auto simp: messageScroll_ok_def min_def max_def)
    then show ?thesis using assms False r by (auto simp: handleKeyPress_def)
  qed
  have ok: "messageScroll_ok (u\<lparr>messageScroll := max 0 (messageScroll u - 1)\<rparr>)"
     "messageScroll_ok (u\<lparr>messageScroll := min (max 0 (len (messages u) - 1)) (messageScroll u + 1)\<rparr>)"
    using assms(2) by (auto simp: messageScroll_ok_def)
  have emp: "messages u = [] \<longrightarrow> messageScroll u = 0
            \<and> handleKeyPress u kup = Inr u \<and> handleKeyPress u kdown = Inr u"
    using assms r by (auto simp: handleKeyPress_def messageScroll_ok_def len_def)
  show ?thesis using up down ok emp by blast
qed

theorem message_pane_navigation_witness:
  "handleKeyPress three_messages_ui ''up'' = Inr (three_messages_ui\<lparr>messageScroll := 0\<rparr>)
   \<and> handleKeyPress three_messages_ui ''j'' = Inr (three_messages_ui\<lparr>messageScroll := 2\<rparr>)"
proof -
  have h: "activePane three_messages_ui = MessagesPane" "messageScroll_ok three_messages_ui"
    "''up'' = ''up'' \<or> ''up'' = ''k''" "''j'' = ''down'' \<or> ''j'' = ''j''"
    by (simp_all add: three_messages_ui_def NewUI_def messageScroll_ok_def len_def)
  have v: "max 0 (messageScroll three_messages_ui - 1) = 0"
    "min (max 0 (len (messages three_messages_ui) - 1)) (messageScroll three_messages_ui + 1) = 2"
    by (simp_all add: three_messages_ui_def NewUI_def len_def)
  from message_pane_navigation [OF h] show ?thesis
    unfolding v by blast
qed

section \<open>The topics pane\<close>

text \<open>
  Claim C4. Let \<open>V\<close> be the visible capacity of a topics pane of height \<open>h\<close>. From a state
  whose topic scroll cursor lies in \<open>[0, max(0, N - V)]\<close>, every sequence of \<^verbatim>\<open>MoveUp\<close>,
  \<^verbatim>\<open>MoveDown\<close> and \<^verbatim>\<open>SetTopics\<close>, each followed by the rendering of the pane, runs without
  panic and ends in a state whose cursor lies in \<open>[0, max(0, N - V)]\<close> for the final
  catalog length \<open>N\<close>.
\<close>

theorem topic_scroll_clamp_invariant:
  assumes "topicScroll_clamped (availableLines h) u"
  shows "\<exists>u1. run_TopicOps h u ops = Inr u1 \<and> topicScroll_clamped (availableLines h) u1"
  using assms
proof (induction ops arbitrary: u)
  case Nil
  then show ?case by simp
next
  case (Cons op ops)
  from apply_TopicOp_clamped [OF Cons.prems] obtain u1 where
    1: "apply_TopicOp h u op = Inr u1" and 2: "topicScroll_clamped (availableLines h) u1"
    by blast
  from Cons.IH [OF 2] show ?case using 1 by simp
qed

theorem topic_scroll_clamp_invariant_witness:
  "\<exists>u1. run_TopicOps 5 NewUI [SetTopicsOp abcde, MoveDown, MoveDown, MoveDown, MoveDown, MoveDown] = Inr u1
      \<and> topicScroll u1 = 3 \<and> len (topics u1) = 5 \<and> availableLines 5 = 2"
proof -
  have h: "topicScroll_clamped (availableLines 5) NewUI"
    by (simp add: topicScroll_clamped_def NewUI_def len_def)
  have r: "topicScroll (projr (run_TopicOps 5 NewUI [SetTopicsOp abcde, MoveDown, MoveDown, MoveDown, MoveDown, MoveDown])) = 3"
    "len (topics (projr (run_TopicOps 5 NewUI [SetTopicsOp abcde, MoveDown, MoveDown, MoveDown, MoveDown, MoveDown]))) = 5"
    "availableLines 5 = 2"
    by code_simp+
  from topic_scroll_clamp_invariant [OF h, of "[SetTopicsOp abcde, MoveDown, MoveDown, MoveDown, MoveDown, MoveDown]"]
  show ?thesis using r by auto
qed

end
